theory Spec2Isabelle
  imports Main "HOL-Library.Word" "HOL-Library.Multiset" "HOL-Library.Sublist"
begin

section \<open>Strings\<close>

text \<open>
  A JavaScript string is a sequence of UTF-16 code units. String literals of the source
  are ASCII; \<open>js_str\<close> turns such a literal into its code units.
\<close>

type_synonym js_string = "16 word list"

definition js_str :: "string \<Rightarrow> js_string" where
  "js_str s = map (\<lambda>c. of_char c) s"

text \<open>
  \<^verbatim>\<open>String.prototype.trim\<close> strips the code points of the ECMAScript productions
  WhiteSpace (TAB, VT, FF, ZWNBSP and every code point of category Zs) and LineTerminator
  (LF, CR, LS, PS) from both ends. All of them lie in the basic plane, so each is one
  code unit.
\<close>

definition isWhiteSpace :: "16 word \<Rightarrow> bool" where
  "isWhiteSpace c \<longleftrightarrow>
     c = 0x0009 \<or> c = 0x000A \<or> c = 0x000B \<or> c = 0x000C \<or> c = 0x000D \<or>
     c = 0x0020 \<or> c = 0x00A0 \<or> c = 0x1680 \<or> (0x2000 \<le> c \<and> c \<le> 0x200A) \<or>
     c = 0x2028 \<or> c = 0x2029 \<or> c = 0x202F \<or> c = 0x205F \<or> c = 0x3000 \<or>
     c = 0xFEFF"

definition trimStart :: "js_string \<Rightarrow> js_string" where
  "trimStart s = dropWhile isWhiteSpace s"

definition trimEnd :: "js_string \<Rightarrow> js_string" where
  "trimEnd s = rev (dropWhile isWhiteSpace (rev s))"

definition trim :: "js_string \<Rightarrow> js_string" where
  "trim s = trimEnd (trimStart s)"

section \<open>Task records and the list operations of \<open>App\<close>\<close>

text \<open>
  A task is the object \<^verbatim>\<open>{ id, text, completed }\<close> that \<^verbatim>\<open>addTodo\<close> builds. The fields
  \<^verbatim>\<open>id\<close> and \<^verbatim>\<open>text\<close> carry a prime here, since both names are taken in Isabelle.
\<close>

record todo =
  id' :: js_string
  text' :: js_string
  completed :: bool

text \<open>
  Each handler of \<^verbatim>\<open>App\<close> passes an updater \<^verbatim>\<open>(prev) => ...\<close> to \<^verbatim>\<open>setTodos\<close>; the
  functions below are these updaters, from the previous list to the next one.
  \<^verbatim>\<open>x.id === id\<close> on two strings is equality of their code units.
\<close>

definition toggle :: "todo list \<Rightarrow> js_string \<Rightarrow> todo list" where
  "toggle prev i =
     map (\<lambda>x. if id' x = i then x\<lparr>completed := \<not> completed x\<rparr> else x) prev"

definition del :: "todo list \<Rightarrow> js_string \<Rightarrow> todo list" where
  "del prev i = filter (\<lambda>x. id' x \<noteq> i) prev"

definition edit :: "todo list \<Rightarrow> js_string \<Rightarrow> js_string \<Rightarrow> todo list" where
  "edit prev i t = map (\<lambda>x. if id' x = i then x\<lparr>text' := t\<rparr> else x) prev"

definition clearCompleted :: "todo list \<Rightarrow> todo list" where
  "clearCompleted prev = filter (\<lambda>x. \<not> completed x) prev"

text \<open>
  The memo \<^verbatim>\<open>filtered\<close>: a \<^verbatim>\<open>switch\<close> on the filter string with the cases
  \<^verbatim>\<open>"active"\<close> and \<^verbatim>\<open>"completed"\<close> and a \<^verbatim>\<open>default\<close>.
\<close>

definition filtered :: "todo list \<Rightarrow> js_string \<Rightarrow> todo list" where
  "filtered todos f =
     (if f = js_str ''active'' then filter (\<lambda>t. \<not> completed t) todos
      else if f = js_str ''completed'' then filter (\<lambda>t. completed t) todos
      else todos)"

definition left :: "todo list \<Rightarrow> nat" where
  "left todos = length (filter (\<lambda>t. \<not> completed t) todos)"

subsection \<open>Adding a task\<close>

text \<open>
  \<^verbatim>\<open>addTodo\<close> takes the new id from the platform:
  \<^verbatim>\<open>crypto.randomUUID ? crypto.randomUUID() : String(Date.now())\<close>. The environment
  record holds what the platform answers at this call: \<open>randomUUID\<close> is \<open>None\<close> when the
  method is missing and otherwise the string the call returns, \<open>Date_now\<close> is the clock in
  milliseconds. The global \<^verbatim>\<open>crypto\<close> itself is taken to exist. \<^verbatim>\<open>String\<close> of an integral
  time value is its decimal numeral.
\<close>

fun digits :: "nat \<Rightarrow> js_string" where
  "digits n = (if n < 10 then [0x30 + of_nat n] else digits (n div 10) @ [0x30 + of_nat (n mod 10)])"

definition String_of_int :: "int \<Rightarrow> js_string" where
  "String_of_int n = (if n < 0 then 0x2D # digits (nat (- n)) else digits (nat n))"

record env =
  randomUUID :: "js_string option"
  Date_now :: int

definition new_id :: "env \<Rightarrow> js_string" where
  "new_id e = (case randomUUID e of Some u \<Rightarrow> u | None \<Rightarrow> String_of_int (Date_now e))"

definition addTodo :: "env \<Rightarrow> todo list \<Rightarrow> js_string \<Rightarrow> todo list" where
  "addTodo e prev text =
     (let t = trim text in
      if t = [] then prev
      else \<lparr>id' = new_id e, text' = t, completed = False\<rparr> # prev)"

text \<open>
  \<^verbatim>\<open>TodoItem.commit\<close>, the only caller of \<^verbatim>\<open>edit\<close>: it trims the draft and calls
  \<^verbatim>\<open>onEdit\<close> only when the trimmed draft is non-empty and differs from the task's text.
\<close>

definition commit :: "todo list \<Rightarrow> todo \<Rightarrow> js_string \<Rightarrow> todo list" where
  "commit prev todo draft =
     (let t = trim draft in
      if t \<noteq> [] \<and> t \<noteq> text' todo then edit prev (id' todo) t else prev)"

subsection \<open>The text invariant of the data model\<close>

text \<open>
  A text is acceptable when it has a code unit that \<^verbatim>\<open>trim\<close> does not strip, that is, when
  it is neither empty nor made of white space only.
\<close>

definition nonblank :: "js_string \<Rightarrow> bool" where
  "nonblank s = list_ex (\<lambda>c. \<not> isWhiteSpace c) s"

definition texts_ok :: "todo list \<Rightarrow> bool" where
  "texts_ok l = list_all (\<lambda>x. nonblank (text' x)) l"

section \<open>JSON values\<close>

text \<open>
  The values \<^verbatim>\<open>JSON.parse\<close> can return. An object is the list of its own properties in
  the order in which the engine enumerates them. A number is kept as its token: the
  conversion to a double is floating point and is left out, and no task record holds a
  number.
\<close>

datatype js_value =
    JNull
  | JBool bool
  | JNum js_string
  | JStr js_string
  | JArr "js_value list"
  | JObj "(js_string \<times> js_value) list"

datatype js_error = SyntaxError | SecurityError | QuotaExceededError

subsection \<open>\<^verbatim>\<open>JSON.stringify\<close>\<close>

text \<open>
  \<^verbatim>\<open>QuoteJSONString\<close> of ECMA-262 walks the code points of the string: a lead surrogate
  followed by a trail surrogate is one code point and is copied; the seven characters of
  the escape table get their two-character escape; any other code unit below U+0020 and
  any surrogate that stands alone is written \<^verbatim>\<open>\uXXXX\<close> with lower-case hex digits.
  \<^verbatim>\<open>JSON.stringify(value)\<close> is called with neither replacer nor indentation, so no white
  space is written. A number is written as the token it is kept as.
\<close>

definition hex_digit :: "nat \<Rightarrow> 16 word" where
  "hex_digit n = (if n < 10 then 0x30 + of_nat n else 0x57 + of_nat n)"

definition UnicodeEscape :: "16 word \<Rightarrow> js_string" where
  "UnicodeEscape c =
     [0x5C, 0x75, hex_digit (unat c div 4096), hex_digit (unat c div 256 mod 16),
      hex_digit (unat c div 16 mod 16), hex_digit (unat c mod 16)]"

definition is_lead :: "16 word \<Rightarrow> bool" where
  "is_lead c \<longleftrightarrow> 0xD800 \<le> c \<and> c \<le> 0xDBFF"

definition is_trail :: "16 word \<Rightarrow> bool" where
  "is_trail c \<longleftrightarrow> 0xDC00 \<le> c \<and> c \<le> 0xDFFF"

definition quote_unit :: "16 word \<Rightarrow> js_string" where
  "quote_unit c =
     (if c = 0x08 then [0x5C, 0x62]
      else if c = 0x09 then [0x5C, 0x74]
      else if c = 0x0A then [0x5C, 0x6E]
      else if c = 0x0C then [0x5C, 0x66]
      else if c = 0x0D then [0x5C, 0x72]
      else if c = 0x22 then [0x5C, 0x22]
      else if c = 0x5C then [0x5C, 0x5C]
      else if c < 0x20 \<or> is_lead c \<or> is_trail c then UnicodeEscape c
      else [c])"

fun quote_units :: "js_string \<Rightarrow> js_string" where
  "quote_units [] = []"
| "quote_units [c] = quote_unit c"
| "quote_units (c # d # cs) =
     (if is_lead c \<and> is_trail d then c # d # quote_units cs
      else quote_unit c @ quote_units (d # cs))"

definition QuoteJSONString :: "js_string \<Rightarrow> js_string" where
  "QuoteJSONString s = 0x22 # quote_units s @ [0x22]"

fun join_comma :: "js_string list \<Rightarrow> js_string" where
  "join_comma [] = []"
| "join_comma [x] = x"
| "join_comma (x # y # ys) = x @ 0x2C # join_comma (y # ys)"

fun JSON_stringify :: "js_value \<Rightarrow> js_string" where
  "JSON_stringify JNull = js_str ''null''"
| "JSON_stringify (JBool b) = (if b then js_str ''true'' else js_str ''false'')"
| "JSON_stringify (JNum n) = n"
| "JSON_stringify (JStr s) = QuoteJSONString s"
| "JSON_stringify (JArr xs) = 0x5B # join_comma (map JSON_stringify xs) @ [0x5D]"
| "JSON_stringify (JObj ps) =
     0x7B # join_comma (map (\<lambda>(k, v). QuoteJSONString k @ 0x3A # JSON_stringify v) ps) @ [0x7D]"

subsection \<open>\<^verbatim>\<open>JSON.parse\<close>\<close>

text \<open>
  A recursive-descent reader of the JSON grammar (ECMA-404), \<open>None\<close> where
  \<^verbatim>\<open>JSON.parse\<close> throws a \<^verbatim>\<open>SyntaxError\<close>. Each reader returns what it read with the
  rest of the input. The readers of nested values recurse on a counter that starts above
  the length of the text; \<open>JSON_parse_fuel\<close> below shows that a larger counter never changes
  the result.
\<close>

definition is_json_ws :: "16 word \<Rightarrow> bool" where
  "is_json_ws c \<longleftrightarrow> c = 0x09 \<or> c = 0x0A \<or> c = 0x0D \<or> c = 0x20"

definition skip_ws :: "js_string \<Rightarrow> js_string" where
  "skip_ws s = dropWhile is_json_ws s"

definition hex_val :: "16 word \<Rightarrow> nat option" where
  "hex_val c =
     (if 0x30 \<le> c \<and> c \<le> 0x39 then Some (unat c - 0x30)
      else if 0x61 \<le> c \<and> c \<le> 0x66 then Some (unat c - 0x57)
      else if 0x41 \<le> c \<and> c \<le> 0x46 then Some (unat c - 0x37)
      else None)"

definition hex4 :: "16 word \<Rightarrow> 16 word \<Rightarrow> 16 word \<Rightarrow> 16 word \<Rightarrow> 16 word option" where
  "hex4 a b c d =
     (case (hex_val a, hex_val b, hex_val c, hex_val d) of
        (Some x, Some y, Some z, Some w) \<Rightarrow> Some (of_nat (((x * 16 + y) * 16 + z) * 16 + w))
      | _ \<Rightarrow> None)"

definition unescape :: "16 word \<Rightarrow> 16 word option" where
  "unescape e =
     (if e = 0x22 then Some 0x22
      else if e = 0x5C then Some 0x5C
      else if e = 0x2F then Some 0x2F
      else if e = 0x62 then Some 0x08
      else if e = 0x66 then Some 0x0C
      else if e = 0x6E then Some 0x0A
      else if e = 0x72 then Some 0x0D
      else if e = 0x74 then Some 0x09
      else None)"

fun parse_chars :: "js_string \<Rightarrow> (js_string \<times> js_string) option" where
  "parse_chars [] = None"
| "parse_chars (c # cs) =
     (if c = 0x22 then Some ([], cs)
      else if c = 0x5C then
        (case cs of
           [] \<Rightarrow> None
         | e # cs' \<Rightarrow>
             if e = 0x75 then
               (case cs' of
                  h1 # h2 # h3 # h4 # cs'' \<Rightarrow>
                    (case hex4 h1 h2 h3 h4 of
                       None \<Rightarrow> None
                     | Some u \<Rightarrow> map_option (\<lambda>(s, r). (u # s, r)) (parse_chars cs''))
                | _ \<Rightarrow> None)
             else
               (case unescape e of
                  None \<Rightarrow> None
                | Some u \<Rightarrow> map_option (\<lambda>(s, r). (u # s, r)) (parse_chars cs')))
      else if c < 0x20 then None
      else map_option (\<lambda>(s, r). (c # s, r)) (parse_chars cs))"


definition is_digit :: "16 word \<Rightarrow> bool" where
  "is_digit c \<longleftrightarrow> 0x30 \<le> c \<and> c \<le> 0x39"

definition parse_int :: "js_string \<Rightarrow> (js_string \<times> js_string) option" where
  "parse_int s =
     (case s of
        [] \<Rightarrow> None
      | d # r \<Rightarrow>
          if d = 0x30 then Some ([d], r)
          else if is_digit d then Some (d # takeWhile is_digit r, dropWhile is_digit r)
          else None)"

definition parse_digits :: "js_string \<Rightarrow> (js_string \<times> js_string) option" where
  "parse_digits s =
     (if takeWhile is_digit s = [] then None
      else Some (takeWhile is_digit s, dropWhile is_digit s))"

definition parse_frac :: "js_string \<Rightarrow> (js_string \<times> js_string) option" where
  "parse_frac s =
     (case s of
        [] \<Rightarrow> Some ([], s)
      | c # r \<Rightarrow>
          if c = 0x2E then map_option (\<lambda>(ds, r'). (c # ds, r')) (parse_digits r)
          else Some ([], s))"

definition parse_exp :: "js_string \<Rightarrow> (js_string \<times> js_string) option" where
  "parse_exp s =
     (case s of
        [] \<Rightarrow> Some ([], s)
      | c # r \<Rightarrow>
          if c = 0x65 \<or> c = 0x45 then
            (case r of
               [] \<Rightarrow> None
             | g # r' \<Rightarrow>
                 if g = 0x2B \<or> g = 0x2D
                 then map_option (\<lambda>(ds, r''). (c # g # ds, r'')) (parse_digits r')
                 else map_option (\<lambda>(ds, r''). (c # ds, r'')) (parse_digits r))
          else Some ([], s))"

definition parse_number :: "js_string \<Rightarrow> (js_string \<times> js_string) option" where
  "parse_number s =
     (let (sign, s1) = (case s of [] \<Rightarrow> ([], s) | c # r \<Rightarrow> if c = 0x2D then ([c], r) else ([], s))
      in case parse_int s1 of
           None \<Rightarrow> None
         | Some (ip, s2) \<Rightarrow>
             (case parse_frac s2 of
                None \<Rightarrow> None
              | Some (fp, s3) \<Rightarrow>
                  (case parse_exp s3 of
                     None \<Rightarrow> None
                   | Some (ep, s4) \<Rightarrow> Some (sign @ ip @ fp @ ep, s4))))"

definition parse_literal :: "js_string \<Rightarrow> js_value \<Rightarrow> js_string \<Rightarrow> (js_value \<times> js_string) option" where
  "parse_literal lit v s =
     (if take (length lit) s = lit then Some (v, drop (length lit) s) else None)"

fun parse_elements ::
  "(js_string \<Rightarrow> (js_value \<times> js_string) option) \<Rightarrow> nat \<Rightarrow> js_string
     \<Rightarrow> (js_value list \<times> js_string) option" where
  "parse_elements p 0 s = None"
| "parse_elements p (Suc n) s =
     (case p s of
        None \<Rightarrow> None
      | Some (v, r) \<Rightarrow>
          (case skip_ws r of
             [] \<Rightarrow> None
           | c # r' \<Rightarrow>
               if c = 0x2C then map_option (\<lambda>(vs, r''). (v # vs, r'')) (parse_elements p n r')
               else if c = 0x5D then Some ([v], r')
               else None))"

fun parse_members ::
  "(js_string \<Rightarrow> (js_value \<times> js_string) option) \<Rightarrow> nat \<Rightarrow> js_string
     \<Rightarrow> ((js_string \<times> js_value) list \<times> js_string) option" where
  "parse_members p 0 s = None"
| "parse_members p (Suc n) s =
     (case skip_ws s of
        [] \<Rightarrow> None
      | q # r \<Rightarrow>
          if q \<noteq> 0x22 then None
          else
            (case parse_chars r of
               None \<Rightarrow> None
             | Some (k, r1) \<Rightarrow>
                 (case skip_ws r1 of
                    [] \<Rightarrow> None
                  | c # r2 \<Rightarrow>
                      if c \<noteq> 0x3A then None
                      else
                        (case p r2 of
                           None \<Rightarrow> None
                         | Some (v, r3) \<Rightarrow>
                             (case skip_ws r3 of
                                [] \<Rightarrow> None
                              | d # r4 \<Rightarrow>
                                  if d = 0x2C then
                                    map_option (\<lambda>(ms, r5). ((k, v) # ms, r5)) (parse_members p n r4)
                                  else if d = 0x7D then Some ([(k, v)], r4)
                                  else None)))))"

text \<open>
  \<^verbatim>\<open>JSON.parse\<close> builds an object by \<^verbatim>\<open>CreateDataProperty\<close> on each member in turn: a key
  that is already there keeps its place and takes the new value; a new key that is an
  array index (the canonical numeral of an integer below \<open>2\<^sup>3\<^sup>2 - 1\<close>) goes among the array
  indices in ascending order, before every other key; any other new key goes last.
\<close>

definition index_val :: "js_string \<Rightarrow> int" where
  "index_val k = foldl (\<lambda>a c. a * 10 + (uint c - 0x30)) 0 k"

definition is_array_index :: "js_string \<Rightarrow> bool" where
  "is_array_index k \<longleftrightarrow>
     k \<noteq> [] \<and> list_all is_digit k \<and> (hd k \<noteq> 0x30 \<or> length k = 1) \<and> index_val k < 4294967295"

fun obj_insert :: "js_string \<Rightarrow> js_value \<Rightarrow> (js_string \<times> js_value) list \<Rightarrow> (js_string \<times> js_value) list" where
  "obj_insert k v [] = [(k, v)]"
| "obj_insert k v ((k', v') # ps) =
     (if is_array_index k \<and> (\<not> is_array_index k' \<or> index_val k < index_val k')
      then (k, v) # (k', v') # ps
      else (k', v') # obj_insert k v ps)"

definition CreateDataProperty ::
  "(js_string \<times> js_value) list \<Rightarrow> js_string \<times> js_value \<Rightarrow> (js_string \<times> js_value) list" where
  "CreateDataProperty ps kv =
     (if fst kv \<in> fst ` set ps
      then map (\<lambda>(k', v'). if k' = fst kv then (k', snd kv) else (k', v')) ps
      else obj_insert (fst kv) (snd kv) ps)"

definition mk_object :: "(js_string \<times> js_value) list \<Rightarrow> js_value" where
  "mk_object ms = JObj (foldl CreateDataProperty [] ms)"

fun parse_value :: "nat \<Rightarrow> js_string \<Rightarrow> (js_value \<times> js_string) option" where
  "parse_value 0 s = None"
| "parse_value (Suc n) s =
     (case skip_ws s of
        [] \<Rightarrow> None
      | c # cs \<Rightarrow>
          if c = 0x7B then
            (case skip_ws cs of
               [] \<Rightarrow> None
             | d # r \<Rightarrow>
                 if d = 0x7D then Some (JObj [], r)
                 else map_option (\<lambda>(ms, r'). (mk_object ms, r')) (parse_members (parse_value n) n cs))
          else if c = 0x5B then
            (case skip_ws cs of
               [] \<Rightarrow> None
             | d # r \<Rightarrow>
                 if d = 0x5D then Some (JArr [], r)
                 else map_option (\<lambda>(vs, r'). (JArr vs, r')) (parse_elements (parse_value n) n cs))
          else if c = 0x22 then map_option (\<lambda>(t, r). (JStr t, r)) (parse_chars cs)
          else if c = 0x74 then parse_literal (js_str ''true'') (JBool True) (c # cs)
          else if c = 0x66 then parse_literal (js_str ''false'') (JBool False) (c # cs)
          else if c = 0x6E then parse_literal (js_str ''null'') JNull (c # cs)
          else map_option (\<lambda>(t, r). (JNum t, r)) (parse_number (c # cs)))"

definition JSON_parse :: "js_string \<Rightarrow> js_error + js_value" where
  "JSON_parse s =
     (case parse_value (Suc (length s)) s of
        None \<Rightarrow> Inl SyntaxError
      | Some (v, r) \<Rightarrow> if skip_ws r = [] then Inr v else Inl SyntaxError)"

section \<open>The hook \<^verbatim>\<open>useLocalStorage\<close>\<close>

text \<open>
  \<^verbatim>\<open>localStorage\<close> as the hook sees it: the stored entries; whether access is refused (then
  \<^verbatim>\<open>getItem\<close> and \<^verbatim>\<open>setItem\<close> both throw a \<^verbatim>\<open>SecurityError\<close>); and which writes the
  browser admits (a refused write throws \<^verbatim>\<open>QuotaExceededError\<close>).
\<close>

record storage =
  items :: "js_string \<rightharpoonup> js_string"
  denied :: bool
  accepts :: "js_string \<Rightarrow> js_string \<Rightarrow> bool"

definition getItem :: "storage \<Rightarrow> js_string \<Rightarrow> js_error + js_string option" where
  "getItem st key = (if denied st then Inl SecurityError else Inr (items st key))"

definition setItem :: "storage \<Rightarrow> js_string \<Rightarrow> js_string \<Rightarrow> js_error + storage" where
  "setItem st key v =
     (if denied st then Inl SecurityError
      else if \<not> accepts st key v then Inl QuotaExceededError
      else Inr (st\<lparr>items := (items st)(key \<mapsto> v)\<rparr>))"

text \<open>
  The initialiser that \<^verbatim>\<open>useLocalStorage\<close> gives to \<^verbatim>\<open>useState\<close>: \<open>load_try\<close> is the body of
  its \<^verbatim>\<open>try\<close> (\<^verbatim>\<open>raw ? JSON.parse(raw) : initialValue\<close>, where \<^verbatim>\<open>null\<close> and the empty string
  are the falsy values of \<^verbatim>\<open>raw\<close>), \<open>load\<close> adds the \<^verbatim>\<open>catch\<close>, which returns
  \<^verbatim>\<open>initialValue\<close> for every exception.
\<close>

definition load_try :: "storage \<Rightarrow> js_string \<Rightarrow> js_value \<Rightarrow> js_error + js_value" where
  "load_try st key initialValue =
     (case getItem st key of
        Inl e \<Rightarrow> Inl e
      | Inr raw \<Rightarrow>
          (case raw of
             None \<Rightarrow> Inr initialValue
           | Some r \<Rightarrow> if r \<noteq> [] then JSON_parse r else Inr initialValue))"

definition load :: "storage \<Rightarrow> js_string \<Rightarrow> js_value \<Rightarrow> js_error + js_value" where
  "load st key initialValue =
     (case load_try st key initialValue of
        Inl e \<Rightarrow> Inr initialValue
      | Inr v \<Rightarrow> Inr v)"

text \<open>
  The effect of \<^verbatim>\<open>useLocalStorage\<close>: \<^verbatim>\<open>localStorage.setItem(key, JSON.stringify(value))\<close>
  in a \<^verbatim>\<open>try\<close> whose \<^verbatim>\<open>catch\<close> does nothing, so a write that throws leaves the storage as
  it was.
\<close>

definition save :: "storage \<Rightarrow> js_string \<Rightarrow> js_value \<Rightarrow> storage" where
  "save st key v =
     (case setItem st key (JSON_stringify v) of
        Inl e \<Rightarrow> st
      | Inr st' \<Rightarrow> st')"

text \<open>
  A task list as the value held in the state \<^verbatim>\<open>todos\<close>: an array of objects with the
  properties \<^verbatim>\<open>id\<close>, \<^verbatim>\<open>text\<close>, \<^verbatim>\<open>completed\<close>, in the order in which \<^verbatim>\<open>addTodo\<close>
  writes them.
\<close>

definition todo_to_js :: "todo \<Rightarrow> js_value" where
  "todo_to_js x =
     JObj [(js_str ''id'', JStr (id' x)), (js_str ''text'', JStr (text' x)),
           (js_str ''completed'', JBool (completed x))]"

definition todos_to_js :: "todo list \<Rightarrow> js_value" where
  "todos_to_js l = JArr (map todo_to_js l)"

text \<open>
  The shape the data model gives the stored value: an array whose elements are objects
  with a string \<^verbatim>\<open>id\<close>, a string \<^verbatim>\<open>text\<close> and a boolean \<^verbatim>\<open>completed\<close>.
\<close>

fun is_task_record :: "js_value \<Rightarrow> bool" where
  "is_task_record (JObj ps) =
     (case (map_of ps (js_str ''id''), map_of ps (js_str ''text''), map_of ps (js_str ''completed'')) of
        (Some (JStr i), Some (JStr t), Some (JBool c)) \<Rightarrow> True
      | _ \<Rightarrow> False)"
| "is_task_record v = False"

fun is_task_array :: "js_value \<Rightarrow> bool" where
  "is_task_array (JArr xs) = list_all is_task_record xs"
| "is_task_array v = False"

text \<open>A reader is non-increasing when the rest it returns is never longer than its input.\<close>

definition nonincreasing :: "(js_string \<Rightarrow> ('a \<times> js_string) option) \<Rightarrow> bool" where
  "nonincreasing p \<longleftrightarrow> (\<forall>s v r. p s = Some (v, r) \<longrightarrow> length r \<le> length s)"

section \<open>Toggling\<close>

text \<open>
  C3: for every list and every id, toggling the same id twice gives back the list it
  started from.
\<close>

theorem toggle_toggle: "toggle (toggle l i) i = l"
  by (induction l) (simp_all add: toggle_def)

section \<open>The visible projection\<close>

text \<open>
  C6: the active and the completed projection of a list share no record, together they
  hold the records of the list with their multiplicities, and the projection under
  \<^verbatim>\<open>"all"\<close> is the list itself.
\<close>

theorem filtered_partition:
  "set (filtered l (js_str ''active'')) \<inter> set (filtered l (js_str ''completed'')) = {}
   \<and> mset (filtered l (js_str ''active'')) + mset (filtered l (js_str ''completed'')) = mset l
   \<and> filtered l (js_str ''all'') = l"
proof -
  have ne: "js_str ''completed'' \<noteq> js_str ''active''"
    by (simp add: js_str_def)
  have all: "js_str ''all'' \<noteq> js_str ''active''" "js_str ''all'' \<noteq> js_str ''completed''"
    by (simp_all add: js_str_def)
  have "set (filter (\<lambda>t. \<not> completed t) l) \<inter> set (filter completed l) = {}"
    by auto
  moreover have "mset (filter (\<lambda>t. \<not> completed t) l) + mset (filter completed l) = mset l"
    by (induction l) simp_all
  ultimately show ?thesis
    using ne all by (simp add: filtered_def)
qed

text \<open>
  C10: a filter string other than \<^verbatim>\<open>"active"\<close> and \<^verbatim>\<open>"completed"\<close> falls to the
  \<^verbatim>\<open>default\<close> case, which returns the whole list.
\<close>

theorem filtered_default:
  "f \<noteq> js_str ''active'' \<Longrightarrow> f \<noteq> js_str ''completed'' \<Longrightarrow> filtered l f = l"
  by (simp add: filtered_def)

theorem filtered_default_witness:
  "js_str ''done'' \<noteq> js_str ''active'' \<and> js_str ''done'' \<noteq> js_str ''completed''
   \<and> filtered [\<lparr>id' = js_str ''a'', text' = js_str ''x'', completed = True\<rparr>,
                \<lparr>id' = js_str ''b'', text' = js_str ''y'', completed = False\<rparr>] (js_str ''done'')
     = [\<lparr>id' = js_str ''a'', text' = js_str ''x'', completed = True\<rparr>,
        \<lparr>id' = js_str ''b'', text' = js_str ''y'', completed = False\<rparr>]"
proof -
  have a: "js_str ''done'' \<noteq> js_str ''active''" by (simp add: js_str_def)
  have b: "js_str ''done'' \<noteq> js_str ''completed''" by (simp add: js_str_def)
  show ?thesis using a b filtered_default [OF a b] by simp
qed

section \<open>Adding\<close>

lemma trimEnd_Nil: "trimEnd s = [] \<longleftrightarrow> \<not> nonblank s"
  by (auto simp: trimEnd_def nonblank_def list_ex_iff dropWhile_eq_Nil_conv)

lemma nonblank_trimStart: "nonblank (trimStart s) \<longleftrightarrow> nonblank s"
proof
  assume "nonblank (trimStart s)"
  then show "nonblank s"
    by (auto simp: nonblank_def list_ex_iff trimStart_def dest: set_dropWhileD)
next
  assume "nonblank s"
  then have ne: "dropWhile isWhiteSpace s \<noteq> []"
    by (auto simp: nonblank_def list_ex_iff dropWhile_eq_Nil_conv)
  then have "\<not> isWhiteSpace (hd (dropWhile isWhiteSpace s))"
    by (rule hd_dropWhile)
  moreover have "hd (dropWhile isWhiteSpace s) \<in> set (dropWhile isWhiteSpace s)"
    using ne by simp
  ultimately show "nonblank (trimStart s)"
    by (auto simp: nonblank_def list_ex_iff trimStart_def)
qed

lemma nonblank_rev: "nonblank (rev s) \<longleftrightarrow> nonblank s"
  by (simp add: nonblank_def list_ex_iff)

lemma nonblank_trimEnd: "nonblank (trimEnd s) \<longleftrightarrow> nonblank s"
proof -
  have "trimEnd s = rev (trimStart (rev s))"
    by (simp add: trimEnd_def trimStart_def)
  then show ?thesis
    by (simp add: nonblank_rev nonblank_trimStart)
qed

lemma nonblank_trim: "nonblank (trim s) \<longleftrightarrow> nonblank s"
  by (simp add: trim_def nonblank_trimEnd nonblank_trimStart)

lemma trim_Nil: "trim s = [] \<longleftrightarrow> \<not> nonblank s"
  by (simp add: trim_def trimEnd_Nil nonblank_trimStart)

text \<open>
  C1, as the code has it: a text that trims to the empty string leaves the list as it is.
  Otherwise the result is the list with one record put in front, whose text is the trimmed
  input, whose \<^verbatim>\<open>completed\<close> is false and whose id is the string the platform supplied.
  That id is new to the list when the platform's string differs from every id in the list;
  \<^verbatim>\<open>addTodo\<close> itself does not compare it with the ids present.
\<close>

theorem addTodo_spec:
  "(trim s = [] \<longrightarrow> addTodo e l s = l)
   \<and> (trim s \<noteq> [] \<longrightarrow>
        length (addTodo e l s) = length l + 1
        \<and> text' (hd (addTodo e l s)) = trim s
        \<and> completed (hd (addTodo e l s)) = False
        \<and> id' (hd (addTodo e l s)) = new_id e
        \<and> tl (addTodo e l s) = l
        \<and> (new_id e \<notin> id' ` set l \<longrightarrow> id' (hd (addTodo e l s)) \<notin> id' ` set l))"
  by (simp add: addTodo_def Let_def)

theorem addTodo_spec_witness:
  "trim (js_str ''  '') = []
   \<and> addTodo \<lparr>randomUUID = None, Date_now = 1700000000000\<rparr>
        [\<lparr>id' = js_str ''a'', text' = js_str ''x'', completed = True\<rparr>] (js_str ''  '')
     = [\<lparr>id' = js_str ''a'', text' = js_str ''x'', completed = True\<rparr>]
   \<and> trim (js_str '' Buy milk '') \<noteq> []
   \<and> new_id \<lparr>randomUUID = None, Date_now = 1700000000000\<rparr>
        \<notin> id' ` set [\<lparr>id' = js_str ''a'', text' = js_str ''x'', completed = True\<rparr>]
   \<and> addTodo \<lparr>randomUUID = None, Date_now = 1700000000000\<rparr>
        [\<lparr>id' = js_str ''a'', text' = js_str ''x'', completed = True\<rparr>] (js_str '' Buy milk '')
     = [\<lparr>id' = js_str ''1700000000000'', text' = js_str ''Buy milk'', completed = False\<rparr>,
        \<lparr>id' = js_str ''a'', text' = js_str ''x'', completed = True\<rparr>]
   \<and> id' (hd (addTodo \<lparr>randomUUID = None, Date_now = 1700000000000\<rparr>
        [\<lparr>id' = js_str ''a'', text' = js_str ''x'', completed = True\<rparr>] (js_str '' Buy milk '')))
        \<notin> id' ` set [\<lparr>id' = js_str ''a'', text' = js_str ''x'', completed = True\<rparr>]"
  using addTodo_spec [of "js_str ''  ''" "\<lparr>randomUUID = None, Date_now = 1700000000000\<rparr>"
          "[\<lparr>id' = js_str ''a'', text' = js_str ''x'', completed = True\<rparr>]"]
        addTodo_spec [of "js_str '' Buy milk ''" "\<lparr>randomUUID = None, Date_now = 1700000000000\<rparr>"
          "[\<lparr>id' = js_str ''a'', text' = js_str ''x'', completed = True\<rparr>]"]
  by (simp add: addTodo_def new_id_def String_of_int_def trim_def trimStart_def trimEnd_def
        isWhiteSpace_def js_str_def)

text \<open>
  The id of the new record can be one the list already holds: without
  \<^verbatim>\<open>crypto.randomUUID\<close> the id is the clock reading, and a list that holds a record made at
  the same reading gets a second record with that id.
\<close>

theorem addTodo_id_not_fresh:
  "trim (js_str ''b'') \<noteq> []
   \<and> id' (hd (addTodo \<lparr>randomUUID = None, Date_now = 1700000000000\<rparr>
         [\<lparr>id' = js_str ''1700000000000'', text' = js_str ''a'', completed = False\<rparr>]
         (js_str ''b'')))
       \<in> id' ` set [\<lparr>id' = js_str ''1700000000000'', text' = js_str ''a'', completed = False\<rparr>]"
  by (simp add: addTodo_def new_id_def String_of_int_def trim_def trimStart_def trimEnd_def
        isWhiteSpace_def js_str_def)

section \<open>Toggling, frame\<close>

lemma toggle_no_match: "i \<notin> id' ` set l \<Longrightarrow> toggle l i = l"
  by (induction l) (auto simp: toggle_def)

text \<open>
  C2: \<^verbatim>\<open>toggle\<close> keeps the length of the list and the position of every record; at each
  position the id and the text stay, \<^verbatim>\<open>completed\<close> is negated exactly when the record's id
  is the given one, and a record with another id is returned as it was. When no record has
  the id, the list is returned unchanged.
\<close>

theorem toggle_frame:
  "length (toggle l i) = length l
   \<and> (\<forall>k<length l.
         id' (toggle l i ! k) = id' (l ! k)
         \<and> text' (toggle l i ! k) = text' (l ! k)
         \<and> completed (toggle l i ! k) = (if id' (l ! k) = i then \<not> completed (l ! k) else completed (l ! k))
         \<and> (id' (l ! k) \<noteq> i \<longrightarrow> toggle l i ! k = l ! k))
   \<and> (i \<notin> id' ` set l \<longrightarrow> toggle l i = l)"
  using toggle_no_match by (auto simp: toggle_def)

theorem toggle_frame_witness:
  "(1::nat) < length [\<lparr>id' = js_str ''a'', text' = js_str ''x'', completed = False\<rparr>,
                      \<lparr>id' = js_str ''b'', text' = js_str ''y'', completed = False\<rparr>]
   \<and> id' ([\<lparr>id' = js_str ''a'', text' = js_str ''x'', completed = False\<rparr>,
            \<lparr>id' = js_str ''b'', text' = js_str ''y'', completed = False\<rparr>] ! 1) \<noteq> js_str ''a''
   \<and> toggle [\<lparr>id' = js_str ''a'', text' = js_str ''x'', completed = False\<rparr>,
              \<lparr>id' = js_str ''b'', text' = js_str ''y'', completed = False\<rparr>] (js_str ''a'')
       = [\<lparr>id' = js_str ''a'', text' = js_str ''x'', completed = True\<rparr>,
          \<lparr>id' = js_str ''b'', text' = js_str ''y'', completed = False\<rparr>]
   \<and> js_str ''c'' \<notin> id' ` set [\<lparr>id' = js_str ''a'', text' = js_str ''x'', completed = False\<rparr>,
                                  \<lparr>id' = js_str ''b'', text' = js_str ''y'', completed = False\<rparr>]
   \<and> toggle [\<lparr>id' = js_str ''a'', text' = js_str ''x'', completed = False\<rparr>,
              \<lparr>id' = js_str ''b'', text' = js_str ''y'', completed = False\<rparr>] (js_str ''c'')
       = [\<lparr>id' = js_str ''a'', text' = js_str ''x'', completed = False\<rparr>,
          \<lparr>id' = js_str ''b'', text' = js_str ''y'', completed = False\<rparr>]"
  using toggle_frame [of "[\<lparr>id' = js_str ''a'', text' = js_str ''x'', completed = False\<rparr>,
                           \<lparr>id' = js_str ''b'', text' = js_str ''y'', completed = False\<rparr>]" "js_str ''a''"]
        toggle_frame [of "[\<lparr>id' = js_str ''a'', text' = js_str ''x'', completed = False\<rparr>,
                           \<lparr>id' = js_str ''b'', text' = js_str ''y'', completed = False\<rparr>]" "js_str ''c''"]
  by (simp add: toggle_def js_str_def)

section \<open>Deleting\<close>

lemma del_no_match: "i \<notin> id' ` set l \<Longrightarrow> del l i = l"
  by (induction l) (auto simp: del_def)

lemma del_length_count: "length (del l i) + length (filter (\<lambda>x. id' x = i) l) = length l"
  by (induction l) (simp_all add: del_def)

lemma filter_id_distinct:
  "distinct (map id' l) \<Longrightarrow> i \<in> id' ` set l \<Longrightarrow> length (filter (\<lambda>x. id' x = i) l) = 1"
proof (induction l)
  case Nil
  then show ?case by simp
next
  case (Cons a l)
  show ?case
  proof (cases "id' a = i")
    case True
    with Cons.prems have "i \<notin> id' ` set l" by auto
    then have "filter (\<lambda>x. id' x = i) l = []"
      by (auto simp: filter_empty_conv)
    with True show ?thesis by simp
  next
    case False
    with Cons show ?thesis by auto
  qed
qed

text \<open>
  C4, as the code has it: \<^verbatim>\<open>del\<close> removes every record that has the given id, so the length
  falls by the number of such records. That number is one when the ids of the list are
  pairwise distinct and the id is present, and the list is returned unchanged when the id
  is absent. The records that stay are those with another id, each as often as before and
  in the order they had.
\<close>

theorem del_spec:
  "length (del l i) + length (filter (\<lambda>x. id' x = i) l) = length l
   \<and> (distinct (map id' l) \<and> i \<in> id' ` set l \<longrightarrow> length (del l i) = length l - 1)
   \<and> (i \<notin> id' ` set l \<longrightarrow> del l i = l)
   \<and> subseq (del l i) l
   \<and> (\<forall>x. count (mset (del l i)) x = (if id' x = i then 0 else count (mset l) x))"
proof -
  have "length (del l i) = length l - 1" if "distinct (map id' l)" "i \<in> id' ` set l"
    using del_length_count [of l i] filter_id_distinct [OF that] by simp
  moreover have "subseq (del l i) l"
    by (simp add: del_def)
  moreover have "count (mset (del l i)) x = (if id' x = i then 0 else count (mset l) x)" for x
    by (simp add: del_def)
  ultimately show ?thesis
    using del_length_count del_no_match by blast
qed

theorem del_spec_witness:
  "distinct (map id' [\<lparr>id' = js_str ''a'', text' = js_str ''x'', completed = False\<rparr>,
                      \<lparr>id' = js_str ''b'', text' = js_str ''y'', completed = True\<rparr>])
   \<and> js_str ''a'' \<in> id' ` set [\<lparr>id' = js_str ''a'', text' = js_str ''x'', completed = False\<rparr>,
                                \<lparr>id' = js_str ''b'', text' = js_str ''y'', completed = True\<rparr>]
   \<and> length (del [\<lparr>id' = js_str ''a'', text' = js_str ''x'', completed = False\<rparr>,
                   \<lparr>id' = js_str ''b'', text' = js_str ''y'', completed = True\<rparr>] (js_str ''a'')) = 1
   \<and> js_str ''c'' \<notin> id' ` set [\<lparr>id' = js_str ''a'', text' = js_str ''x'', completed = False\<rparr>,
                                  \<lparr>id' = js_str ''b'', text' = js_str ''y'', completed = True\<rparr>]
   \<and> del [\<lparr>id' = js_str ''a'', text' = js_str ''x'', completed = False\<rparr>,
           \<lparr>id' = js_str ''b'', text' = js_str ''y'', completed = True\<rparr>] (js_str ''c'')
       = [\<lparr>id' = js_str ''a'', text' = js_str ''x'', completed = False\<rparr>,
          \<lparr>id' = js_str ''b'', text' = js_str ''y'', completed = True\<rparr>]"
  using del_spec [of "[\<lparr>id' = js_str ''a'', text' = js_str ''x'', completed = False\<rparr>,
                       \<lparr>id' = js_str ''b'', text' = js_str ''y'', completed = True\<rparr>]" "js_str ''a''"]
        del_spec [of "[\<lparr>id' = js_str ''a'', text' = js_str ''x'', completed = False\<rparr>,
                       \<lparr>id' = js_str ''b'', text' = js_str ''y'', completed = True\<rparr>]" "js_str ''c''"]
  by (simp add: js_str_def)

text \<open>
  With an id that two records share, \<^verbatim>\<open>del\<close> removes both: the length falls by two.
\<close>

theorem del_removes_duplicates:
  "js_str ''a'' \<in> id' ` set [\<lparr>id' = js_str ''a'', text' = js_str ''x'', completed = False\<rparr>,
                             \<lparr>id' = js_str ''a'', text' = js_str ''y'', completed = False\<rparr>]
   \<and> length (del [\<lparr>id' = js_str ''a'', text' = js_str ''x'', completed = False\<rparr>,
                   \<lparr>id' = js_str ''a'', text' = js_str ''y'', completed = False\<rparr>] (js_str ''a''))
       \<noteq> length [\<lparr>id' = js_str ''a'', text' = js_str ''x'', completed = False\<rparr>,
                  \<lparr>id' = js_str ''a'', text' = js_str ''y'', completed = False\<rparr>] - 1"
  by (simp add: del_def)

section \<open>Clearing the completed tasks\<close>

text \<open>
  C5: \<^verbatim>\<open>clearCompleted\<close> returns the records of the list that are not completed: the result
  is a subsequence of the list (its records are records of the list, in the order they had),
  a completed record does not occur in it, and a record that is not completed occurs as
  often as in the list.
\<close>

theorem clearCompleted_spec:
  "subseq (clearCompleted l) l
   \<and> (\<forall>x. count (mset (clearCompleted l)) x = (if completed x then 0 else count (mset l) x))"
  by (simp add: clearCompleted_def)

section \<open>The text invariant\<close>

lemma texts_ok_addTodo: "texts_ok l \<Longrightarrow> texts_ok (addTodo e l s)"
  by (simp add: addTodo_def texts_ok_def Let_def nonblank_trim trim_Nil)

lemma texts_ok_toggle: "texts_ok l \<Longrightarrow> texts_ok (toggle l i)"
  by (induction l) (simp_all add: toggle_def texts_ok_def)

lemma texts_ok_del: "texts_ok l \<Longrightarrow> texts_ok (del l i)"
  by (induction l) (simp_all add: del_def texts_ok_def)

lemma texts_ok_clearCompleted: "texts_ok l \<Longrightarrow> texts_ok (clearCompleted l)"
  by (induction l) (simp_all add: clearCompleted_def texts_ok_def)

lemma texts_ok_edit: "texts_ok l \<Longrightarrow> nonblank t \<Longrightarrow> texts_ok (edit l i t)"
  by (induction l) (simp_all add: edit_def texts_ok_def)

lemma texts_ok_commit: "texts_ok l \<Longrightarrow> texts_ok (commit l x d)"
  by (simp add: commit_def Let_def texts_ok_edit nonblank_trim trim_Nil)

text \<open>
  C9, as the code has it: the invariant "no record has an empty or white-space-only text"
  holds of the empty list and is kept by \<^verbatim>\<open>addTodo\<close>, \<^verbatim>\<open>toggle\<close>, \<^verbatim>\<open>del\<close> and
  \<^verbatim>\<open>clearCompleted\<close> on every input. \<^verbatim>\<open>edit\<close> stores its text argument as it is, so it keeps
  the invariant when that text is itself neither empty nor white space only; this is what
  \<^verbatim>\<open>commit\<close>, the caller of \<^verbatim>\<open>edit\<close>, ensures for every draft.
\<close>

theorem texts_ok_preserved:
  "texts_ok []
   \<and> (texts_ok l \<longrightarrow> texts_ok (addTodo e l s))
   \<and> (texts_ok l \<longrightarrow> texts_ok (toggle l i))
   \<and> (texts_ok l \<longrightarrow> texts_ok (del l i))
   \<and> (texts_ok l \<longrightarrow> texts_ok (clearCompleted l))
   \<and> (texts_ok l \<and> nonblank t \<longrightarrow> texts_ok (edit l i t))
   \<and> (texts_ok l \<longrightarrow> texts_ok (commit l x d))"
  using texts_ok_addTodo texts_ok_toggle texts_ok_del texts_ok_clearCompleted texts_ok_edit
    texts_ok_commit
  by (simp add: texts_ok_def)

theorem texts_ok_preserved_witness:
  "texts_ok [\<lparr>id' = js_str ''a'', text' = js_str ''x'', completed = True\<rparr>]
   \<and> nonblank (js_str ''y'')
   \<and> texts_ok (addTodo \<lparr>randomUUID = Some (js_str ''u''), Date_now = 0\<rparr>
        [\<lparr>id' = js_str ''a'', text' = js_str ''x'', completed = True\<rparr>] (js_str '' z ''))
   \<and> texts_ok (toggle [\<lparr>id' = js_str ''a'', text' = js_str ''x'', completed = True\<rparr>] (js_str ''a''))
   \<and> texts_ok (del [\<lparr>id' = js_str ''a'', text' = js_str ''x'', completed = True\<rparr>] (js_str ''b''))
   \<and> texts_ok (clearCompleted [\<lparr>id' = js_str ''a'', text' = js_str ''x'', completed = True\<rparr>])
   \<and> texts_ok (edit [\<lparr>id' = js_str ''a'', text' = js_str ''x'', completed = True\<rparr>] (js_str ''a'') (js_str ''y''))
   \<and> texts_ok (commit [\<lparr>id' = js_str ''a'', text' = js_str ''x'', completed = True\<rparr>]
        \<lparr>id' = js_str ''a'', text' = js_str ''x'', completed = True\<rparr> (js_str ''  ''))"
proof -
  have ok: "texts_ok [\<lparr>id' = js_str ''a'', text' = js_str ''x'', completed = True\<rparr>]"
    by (simp add: texts_ok_def nonblank_def isWhiteSpace_def js_str_def)
  have nb: "nonblank (js_str ''y'')"
    by (simp add: nonblank_def isWhiteSpace_def js_str_def)
  show ?thesis
    using ok nb
      texts_ok_preserved [of "[\<lparr>id' = js_str ''a'', text' = js_str ''x'', completed = True\<rparr>]"
        "\<lparr>randomUUID = Some (js_str ''u''), Date_now = 0\<rparr>" "js_str '' z ''" "js_str ''a''"
        "js_str ''y''" "\<lparr>id' = js_str ''a'', text' = js_str ''x'', completed = True\<rparr>" "js_str ''  ''"]
      texts_ok_preserved [of "[\<lparr>id' = js_str ''a'', text' = js_str ''x'', completed = True\<rparr>]"
        "\<lparr>randomUUID = Some (js_str ''u''), Date_now = 0\<rparr>" "js_str '' z ''" "js_str ''b''"
        "js_str ''y''" "\<lparr>id' = js_str ''a'', text' = js_str ''x'', completed = True\<rparr>" "js_str ''  ''"]
    by simp
qed

text \<open>
  \<^verbatim>\<open>edit\<close> with the empty text on a record that is present stores the empty text.
\<close>

theorem edit_empty_text_breaks_invariant:
  "texts_ok [\<lparr>id' = js_str ''a'', text' = js_str ''x'', completed = False\<rparr>]
   \<and> \<not> texts_ok (edit [\<lparr>id' = js_str ''a'', text' = js_str ''x'', completed = False\<rparr>] (js_str ''a'') [])"
  by (simp add: texts_ok_def nonblank_def edit_def isWhiteSpace_def js_str_def)

section \<open>The JSON reader\<close>

subsection \<open>The counter of the reader\<close>

text \<open>
  No reader returns a rest longer than its input, and every nested call comes after a
  bracket, a comma or a colon has been read. So a counter above the length of the text
  is never used up: all such counters give the same result.
\<close>

lemma length_skip_ws: "length (skip_ws s) \<le> length s"
  by (simp add: skip_ws_def length_dropWhile_le)

lemma skip_ws_ConsD: "skip_ws s = c # r \<Longrightarrow> length r < length s"
  using length_skip_ws [of s] by simp

lemma parse_chars_length: "parse_chars s = Some (t, r) \<Longrightarrow> length r \<le> length s"
proof (induction s arbitrary: t rule: parse_chars.induct)
  case 1
  then show ?case by simp
next
  case (2 c cs)
  then show ?case
    by (fastforce split: if_splits list.splits option.splits)
qed

lemma parse_digits_length: "parse_digits s = Some (t, r) \<Longrightarrow> length r \<le> length s"
  by (auto simp: parse_digits_def length_dropWhile_le split: if_splits)

lemma parse_int_length: "parse_int s = Some (t, r) \<Longrightarrow> length r \<le> length s"
  by (auto simp: parse_int_def length_dropWhile_le le_SucI split: if_splits list.splits)

lemma parse_frac_length: "parse_frac s = Some (t, r) \<Longrightarrow> length r \<le> length s"
  by (auto simp: parse_frac_def le_SucI split: if_splits list.splits dest!: parse_digits_length)

lemma parse_exp_length: "parse_exp s = Some (t, r) \<Longrightarrow> length r \<le> length s"
  by (fastforce simp: parse_exp_def le_SucI split: if_splits list.splits dest!: parse_digits_length)

lemma parse_number_length: "parse_number s = Some (t, r) \<Longrightarrow> length r \<le> length s"
  by (fastforce simp: parse_number_def split: if_splits list.splits option.splits
      dest!: parse_int_length parse_frac_length parse_exp_length)

lemma parse_literal_length: "parse_literal lit v s = Some (w, r) \<Longrightarrow> length r \<le> length s"
  by (auto simp: parse_literal_def split: if_splits)


lemma parse_elements_length:
  "nonincreasing p \<Longrightarrow> parse_elements p n s = Some (vs, r) \<Longrightarrow> length r \<le> length s"
proof (induction n arbitrary: s vs)
  case 0
  then show ?case by simp
next
  case (Suc n)
  from Suc.prems(2) obtain v r1 where p: "p s = Some (v, r1)"
    by (auto split: option.splits)
  with Suc.prems(1) have l1: "length r1 \<le> length s"
    by (auto simp: nonincreasing_def)
  from Suc.prems(2) p obtain c r2 where sk: "skip_ws r1 = c # r2"
    by (auto split: list.splits)
  then have l2: "length r2 < length r1"
    by (rule skip_ws_ConsD)
  show ?case
  proof (cases "c = 0x2C")
    case True
    with Suc.prems(2) p sk obtain vs' where "parse_elements p n r2 = Some (vs', r)"
      by auto
    with Suc.IH [OF Suc.prems(1)] have "length r \<le> length r2" by blast
    with l1 l2 show ?thesis by simp
  next
    case False
    with Suc.prems(2) p sk have "r = r2"
      by (auto split: if_splits)
    with l1 l2 show ?thesis by simp
  qed
qed

lemma parse_members_length:
  "nonincreasing p \<Longrightarrow> parse_members p n s = Some (ms, r) \<Longrightarrow> length r \<le> length s"
proof (induction n arbitrary: s ms)
  case 0
  then show ?case by simp
next
  case (Suc n)
  from Suc.prems(2) obtain q r0 where s0: "skip_ws s = q # r0"
    by (auto split: list.splits)
  with Suc.prems(2) obtain k r1 where pc: "parse_chars r0 = Some (k, r1)"
    by (auto split: if_splits option.splits)
  from Suc.prems(2) s0 pc obtain c r2 where s1: "skip_ws r1 = c # r2" and c: "c = 0x3A"
    by (auto split: if_splits list.splits)
  from Suc.prems(2) s0 pc s1 c obtain v r3 where pv: "p r2 = Some (v, r3)"
    by (auto split: if_splits option.splits)
  from Suc.prems(2) s0 pc s1 c pv obtain d r4 where s3: "skip_ws r3 = d # r4"
    by (auto split: if_splits list.splits)
  have l: "length r4 < length s"
    using skip_ws_ConsD [OF s0] parse_chars_length [OF pc] skip_ws_ConsD [OF s1]
      skip_ws_ConsD [OF s3] pv Suc.prems(1)
    by (fastforce simp: nonincreasing_def)
  show ?case
  proof (cases "d = 0x2C")
    case True
    with Suc.prems(2) s0 pc s1 c pv s3 obtain ms' where "parse_members p n r4 = Some (ms', r)"
      by (auto split: if_splits)
    with Suc.IH [OF Suc.prems(1)] have "length r \<le> length r4" by blast
    with l show ?thesis by simp
  next
    case False
    with Suc.prems(2) s0 pc s1 c pv s3 have "r = r4"
      by (auto split: if_splits)
    with l show ?thesis by simp
  qed
qed

lemma nonincreasing_parse_value: "nonincreasing (parse_value n)"
proof (induction n)
  case 0
  show ?case by (simp add: nonincreasing_def)
next
  case (Suc n)
  show ?case
    unfolding nonincreasing_def
  proof (intro allI impI)
    fix s v r
    assume a: "parse_value (Suc n) s = Some (v, r)"
    then obtain c cs where sk: "skip_ws s = c # cs"
      by (auto split: list.splits)
    then have l: "length cs < length s"
      by (rule skip_ws_ConsD)
    have l': "length (c # cs) \<le> length s"
      using l by simp
    consider (obj) "c = 0x7B" | (arr) "c = 0x5B" | (str) "c = 0x22" | (lit) "c = 0x74 \<or> c = 0x66 \<or> c = 0x6E"
      | (num) "c \<noteq> 0x7B" "c \<noteq> 0x5B" "c \<noteq> 0x22" "c \<noteq> 0x74" "c \<noteq> 0x66" "c \<noteq> 0x6E"
      by blast
    then show "length r \<le> length s"
    proof cases
      case obj
      from a sk obj obtain d r0 where s0: "skip_ws cs = d # r0"
        by (auto split: list.splits)
      show ?thesis
      proof (cases "d = 0x7D")
        case True
        with a sk obj s0 have "r = r0" by simp
        with skip_ws_ConsD [OF s0] l show ?thesis by simp
      next
        case False
        with a sk obj s0 obtain ms where "parse_members (parse_value n) n cs = Some (ms, r)"
          by auto
        with parse_members_length [OF Suc] have "length r \<le> length cs" by blast
        with l show ?thesis by simp
      qed
    next
      case arr
      from a sk arr obtain d r0 where s0: "skip_ws cs = d # r0"
        by (auto split: list.splits)
      show ?thesis
      proof (cases "d = 0x5D")
        case True
        with a sk arr s0 have "r = r0" by simp
        with skip_ws_ConsD [OF s0] l show ?thesis by simp
      next
        case False
        with a sk arr s0 obtain vs where "parse_elements (parse_value n) n cs = Some (vs, r)"
          by auto
        with parse_elements_length [OF Suc] have "length r \<le> length cs" by blast
        with l show ?thesis by simp
      qed
    next
      case str
      with a sk obtain t where "parse_chars cs = Some (t, r)"
        by auto
      with parse_chars_length have "length r \<le> length cs" by blast
      with l show ?thesis by simp
    next
      case lit
      with a sk obtain lt w where "parse_literal lt w (c # cs) = Some (v, r)"
        by (auto split: if_splits)
      with parse_literal_length have "length r \<le> length (c # cs)" by blast
      with l' show ?thesis by simp
    next
      case num
      with a sk obtain t where "parse_number (c # cs) = Some (t, r)"
        by auto
      with parse_number_length have "length r \<le> length (c # cs)" by blast
      with l' show ?thesis by simp
    qed
  qed
qed


lemma parse_elements_fuel:
  "nonincreasing p \<Longrightarrow> (\<And>t. length t \<le> length s \<Longrightarrow> p t = p' t) \<Longrightarrow>
   length s < n \<Longrightarrow> length s < m \<Longrightarrow> parse_elements p n s = parse_elements p' m s"
proof (induction n arbitrary: m s)
  case 0
  then show ?case by simp
next
  case (Suc n)
  from Suc.prems(4) obtain m' where m: "m = Suc m'"
    by (cases m) auto
  have ps: "p' s = p s"
    using Suc.prems(2) [of s] by simp
  have rec: "parse_elements p n r' = parse_elements p' m' r'"
    if "p s = Some (v, r)" "skip_ws r = c # r'" for v r c r'
  proof -
    have "length r \<le> length s"
      using that(1) Suc.prems(1) by (auto simp: nonincreasing_def)
    with skip_ws_ConsD [OF that(2)] have l: "length r' < length s" by simp
    show ?thesis
    proof (rule Suc.IH [OF Suc.prems(1)])
      show "p t = p' t" if "length t \<le> length r'" for t
        using that l Suc.prems(2) [of t] by simp
      show "length r' < n" using l Suc.prems(3) by simp
      show "length r' < m'" using l Suc.prems(4) m by simp
    qed
  qed
  show ?case
    by (auto simp: m ps rec split: option.splits list.splits)
qed

lemma parse_members_fuel:
  "nonincreasing p \<Longrightarrow> (\<And>t. length t \<le> length s \<Longrightarrow> p t = p' t) \<Longrightarrow>
   length s < n \<Longrightarrow> length s < m \<Longrightarrow> parse_members p n s = parse_members p' m s"
proof (induction n arbitrary: m s)
  case 0
  then show ?case by simp
next
  case (Suc n)
  from Suc.prems(4) obtain m' where m: "m = Suc m'"
    by (cases m) auto
  have pv: "p' r2 = p r2"
    if "skip_ws s = q # r0" "parse_chars r0 = Some (k, r1)" "skip_ws r1 = c # r2" for q r0 k r1 c r2
  proof -
    have "length r2 \<le> length s"
      using skip_ws_ConsD [OF that(1)] parse_chars_length [OF that(2)] skip_ws_ConsD [OF that(3)]
      by simp
    then show ?thesis
      using Suc.prems(2) [of r2] by simp
  qed
  have rec: "parse_members p n r4 = parse_members p' m' r4"
    if "skip_ws s = q # r0" "parse_chars r0 = Some (k, r1)" "skip_ws r1 = c # r2"
      "p r2 = Some (v, r3)" "skip_ws r3 = d # r4" for q r0 k r1 c r2 v r3 d r4
  proof -
    have "length r3 \<le> length r2"
      using that(4) Suc.prems(1) by (auto simp: nonincreasing_def)
    then have l: "length r4 < length s"
      using skip_ws_ConsD [OF that(1)] parse_chars_length [OF that(2)] skip_ws_ConsD [OF that(3)]
        skip_ws_ConsD [OF that(5)]
      by simp
    show ?thesis
    proof (rule Suc.IH [OF Suc.prems(1)])
      show "p t = p' t" if "length t \<le> length r4" for t
        using that l Suc.prems(2) [of t] by simp
      show "length r4 < n" using l Suc.prems(3) by simp
      show "length r4 < m'" using l Suc.prems(4) m by simp
    qed
  qed
  show ?case
    by (auto simp: m pv rec split: option.splits list.splits)
qed

lemma parse_value_fuel:
  "length s < n \<Longrightarrow> length s < m \<Longrightarrow> parse_value n s = parse_value m s"
proof (induction n arbitrary: m s)
  case 0
  then show ?case by simp
next
  case (Suc n)
  from Suc.prems(2) obtain m' where m: "m = Suc m'"
    by (cases m) auto
  have agree: "parse_value n t = parse_value m' t"
    if "skip_ws s = c # cs" "length t \<le> length cs" for c cs t
  proof (rule Suc.IH)
    have "length t < length s"
      using skip_ws_ConsD [OF that(1)] that(2) by simp
    then show "length t < n" "length t < m'"
      using Suc.prems m by simp_all
  qed
  have E: "parse_elements (parse_value n) n cs = parse_elements (parse_value m') m' cs"
    if sk: "skip_ws s = c # cs" for c cs
  proof (rule parse_elements_fuel [OF nonincreasing_parse_value])
    show "parse_value n t = parse_value m' t" if "length t \<le> length cs" for t
      using agree [OF sk that] .
    show "length cs < n" "length cs < m'"
      using skip_ws_ConsD [OF sk] Suc.prems m by simp_all
  qed
  have M: "parse_members (parse_value n) n cs = parse_members (parse_value m') m' cs"
    if sk: "skip_ws s = c # cs" for c cs
  proof (rule parse_members_fuel [OF nonincreasing_parse_value])
    show "parse_value n t = parse_value m' t" if "length t \<le> length cs" for t
      using agree [OF sk that] .
    show "length cs < n" "length cs < m'"
      using skip_ws_ConsD [OF sk] Suc.prems m by simp_all
  qed
  show ?case
  proof (cases "skip_ws s")
    case Nil
    then show ?thesis by (simp add: m)
  next
    case (Cons c cs)
    show ?thesis
      by (simp add: m Cons E [OF Cons] M [OF Cons] split: list.splits)
  qed
qed

lemma JSON_parse_fuel:
  "length s < n \<Longrightarrow>
   JSON_parse s =
     (case parse_value n s of
        None \<Rightarrow> Inl SyntaxError
      | Some (v, r) \<Rightarrow> if skip_ws r = [] then Inr v else Inl SyntaxError)"
  using parse_value_fuel [of s "Suc (length s)" n] by (simp add: JSON_parse_def del: parse_value.simps)

subsection \<open>Reading back what \<^verbatim>\<open>JSON.stringify\<close> wrote\<close>

lemma unat_digit: "n < 16 \<Longrightarrow> unat (0x30 + of_nat n :: 16 word) = 48 + n"
  by (simp add: unat_word_ariths unat_of_nat)

lemma unat_letter: "n < 16 \<Longrightarrow> unat (0x57 + of_nat n :: 16 word) = 87 + n"
  by (simp add: unat_word_ariths unat_of_nat)

lemma hex_val_hex_digit: "n < 16 \<Longrightarrow> hex_val (hex_digit n) = Some n"
  by (simp add: hex_val_def hex_digit_def word_le_nat_alt unat_digit unat_letter)

lemma nibbles:
  "((n div 4096 * 16 + n div 256 mod 16) * 16 + n div 16 mod 16) * 16 + n mod 16 = (n::nat)"
proof -
  have a: "n div 256 = n div 16 div 16" by (simp add: div_mult2_eq)
  have b: "n div 4096 = n div 16 div 16 div 16" by (simp add: div_mult2_eq)
  define q1 where "q1 = n div 16"
  define q2 where "q2 = q1 div 16"
  define q3 where "q3 = q2 div 16"
  have 1: "n = q1 * 16 + n mod 16" unfolding q1_def by simp
  have 2: "q1 = q2 * 16 + q1 mod 16" unfolding q2_def by simp
  have 3: "q2 = q3 * 16 + q2 mod 16" unfolding q3_def by simp
  have "((q3 * 16 + q2 mod 16) * 16 + q1 mod 16) * 16 + n mod 16 = n"
    using 1 2 3 by simp
  then show ?thesis
    unfolding a b q1_def q2_def q3_def .
qed

lemma hex4_UnicodeEscape:
  "hex4 (hex_digit (unat c div 4096)) (hex_digit (unat c div 256 mod 16))
        (hex_digit (unat c div 16 mod 16)) (hex_digit (unat c mod 16)) = Some (c :: 16 word)"
proof -
  have lt: "unat c < 65536"
    using unsigned_less [of c, where ?'a = nat] by simp
  then have "unat c div 4096 < 16" by simp
  then show ?thesis
    using nibbles [of "unat c"] by (simp add: hex4_def hex_val_hex_digit)
qed

lemma parse_chars_UnicodeEscape:
  "parse_chars (UnicodeEscape c @ r) = map_option (\<lambda>(s, r'). (c # s, r')) (parse_chars r)"
  by (simp add: UnicodeEscape_def hex4_UnicodeEscape)

lemma lead_plain: "is_lead c \<Longrightarrow> c \<noteq> 0x22 \<and> c \<noteq> 0x5C \<and> \<not> c < 0x20"
  by (auto simp: is_lead_def word_le_nat_alt word_less_nat_alt)

lemma trail_plain: "is_trail c \<Longrightarrow> c \<noteq> 0x22 \<and> c \<noteq> 0x5C \<and> \<not> c < 0x20"
  by (auto simp: is_trail_def word_le_nat_alt word_less_nat_alt)

lemma parse_chars_quote_unit:
  "parse_chars (quote_unit c @ r) = map_option (\<lambda>(s, r'). (c # s, r')) (parse_chars r)"
  by (simp add: quote_unit_def parse_chars_UnicodeEscape unescape_def)

lemma parse_chars_quote_units:
  "parse_chars (quote_units s @ 0x22 # r) = Some (s, r)"
proof (induction s rule: quote_units.induct)
  case 1
  show ?case by simp
next
  case (2 c)
  show ?case by (simp add: parse_chars_quote_unit)
next
  case (3 c d cs)
  show ?case
  proof (cases "is_lead c \<and> is_trail d")
    case True
    then have c: "c \<noteq> 0x22" "c \<noteq> 0x5C" "\<not> c < 0x20" and d: "d \<noteq> 0x22" "d \<noteq> 0x5C" "\<not> d < 0x20"
      using lead_plain [of c] trail_plain [of d] by auto
    from True have "quote_units (c # d # cs) = c # d # quote_units cs"
      by simp
    then show ?thesis
      using c d "3.IH"(1) [OF True] by simp
  next
    case False
    then have "quote_units (c # d # cs) = quote_unit c @ quote_units (d # cs)"
      by auto
    then show ?thesis
      using "3.IH"(2) [OF False] by (simp add: parse_chars_quote_unit)
  qed
qed


lemma parse_value_JStr:
  "parse_value (Suc n) (QuoteJSONString s @ r) = Some (JStr s, r)"
  by (simp add: QuoteJSONString_def skip_ws_def is_json_ws_def parse_chars_quote_units)

lemma parse_value_JBool:
  "parse_value (Suc n) (JSON_stringify (JBool b) @ r) = Some (JBool b, r)"
  by (simp add: skip_ws_def is_json_ws_def parse_literal_def js_str_def)

lemma mk_object_todo:
  "mk_object [(js_str ''id'', a), (js_str ''text'', b), (js_str ''completed'', c)]
   = JObj [(js_str ''id'', a), (js_str ''text'', b), (js_str ''completed'', c)]"
  by (simp add: mk_object_def CreateDataProperty_def is_array_index_def is_digit_def js_str_def)

lemma parse_members_todo:
  "parse_members (parse_value (Suc m)) (Suc (Suc (Suc n)))
     (QuoteJSONString (js_str ''id'') @ 0x3A # QuoteJSONString a @ 0x2C #
      QuoteJSONString (js_str ''text'') @ 0x3A # QuoteJSONString b @ 0x2C #
      QuoteJSONString (js_str ''completed'') @ 0x3A # JSON_stringify (JBool c) @ 0x7D # r)
   = Some ([(js_str ''id'', JStr a), (js_str ''text'', JStr b), (js_str ''completed'', JBool c)], r)"
proof -
  have ws: "skip_ws (0x22 # u) = 0x22 # u" "skip_ws (0x3A # u) = 0x3A # u"
    "skip_ws (0x2C # u) = 0x2C # u" "skip_ws (0x7D # u) = 0x7D # u" for u
    by (simp_all add: skip_ws_def is_json_ws_def)
  have q: "QuoteJSONString k @ u = 0x22 # quote_units k @ 0x22 # u" for k u
    by (simp add: QuoteJSONString_def)
  have str: "parse_value (Suc m) (0x22 # quote_units k @ 0x22 # u) = Some (JStr k, u)" for k u
    using parse_value_JStr [of m k u] by (simp add: q)
  show ?thesis
    by (simp add: q ws str parse_chars_quote_units parse_value_JBool del: JSON_stringify.simps parse_value.simps)
qed

lemma parse_value_object:
  "skip_ws body = d # u \<Longrightarrow> d \<noteq> 0x7D \<Longrightarrow>
   parse_members (parse_value n) n body = Some (ms, r) \<Longrightarrow>
   parse_value (Suc n) (0x7B # body) = Some (mk_object ms, r)"
  by (simp add: skip_ws_def is_json_ws_def)

lemma parse_value_array:
  "skip_ws body = d # u \<Longrightarrow> d \<noteq> 0x5D \<Longrightarrow>
   parse_elements (parse_value n) n body = Some (vs, r) \<Longrightarrow>
   parse_value (Suc n) (0x5B # body) = Some (JArr vs, r)"
  by (simp add: skip_ws_def is_json_ws_def)

lemma skip_ws_Quote: "skip_ws (QuoteJSONString k @ u) = 0x22 # quote_units k @ 0x22 # u"
  by (simp add: QuoteJSONString_def skip_ws_def is_json_ws_def)

lemma parse_value_todo:
  "parse_value (Suc (Suc (Suc (Suc n)))) (JSON_stringify (todo_to_js x) @ r) = Some (todo_to_js x, r)"
proof -
  define body where "body =
      QuoteJSONString (js_str ''id'') @ 0x3A # QuoteJSONString (id' x) @ 0x2C #
      QuoteJSONString (js_str ''text'') @ 0x3A # QuoteJSONString (text' x) @ 0x2C #
      QuoteJSONString (js_str ''completed'') @ 0x3A # JSON_stringify (JBool (completed x)) @ 0x7D # r"
  have s: "JSON_stringify (todo_to_js x) @ r = 0x7B # body"
    by (simp add: todo_to_js_def body_def)
  have ms: "parse_members (parse_value (Suc (Suc (Suc n)))) (Suc (Suc (Suc n))) body
      = Some ([(js_str ''id'', JStr (id' x)), (js_str ''text'', JStr (text' x)),
               (js_str ''completed'', JBool (completed x))], r)"
    unfolding body_def by (rule parse_members_todo)
  have "parse_value (Suc (Suc (Suc (Suc n)))) (0x7B # body)
      = Some (mk_object [(js_str ''id'', JStr (id' x)), (js_str ''text'', JStr (text' x)),
               (js_str ''completed'', JBool (completed x))], r)"
  proof (rule parse_value_object [OF _ _ ms])
    show "skip_ws body = 0x22 # quote_units (js_str ''id'') @ 0x22 # (0x3A # QuoteJSONString (id' x) @ 0x2C #
      QuoteJSONString (js_str ''text'') @ 0x3A # QuoteJSONString (text' x) @ 0x2C #
      QuoteJSONString (js_str ''completed'') @ 0x3A # JSON_stringify (JBool (completed x)) @ 0x7D # r)"
      unfolding body_def by (rule skip_ws_Quote)
    show "(0x22 :: 16 word) \<noteq> 0x7D" by simp
  qed
  then have "parse_value (Suc (Suc (Suc (Suc n)))) (0x7B # body) = Some (todo_to_js x, r)"
    by (simp only: mk_object_todo todo_to_js_def)
  then show ?thesis
    by (simp only: s)
qed

lemma parse_elements_join:
  assumes "\<And>x u. x \<in> set xs \<Longrightarrow> p (f x @ u) = Some (x, u)"
    and "xs \<noteq> []" and "length xs \<le> n"
  shows "parse_elements p n (join_comma (map f xs) @ 0x5D # r) = Some (xs, r)"
  using assms
proof (induction xs arbitrary: n)
  case Nil
  then show ?case by simp
next
  case (Cons x xs)
  then obtain m where n: "n = Suc m" by (cases n) auto
  have ws: "skip_ws (0x2C # u) = 0x2C # u" "skip_ws (0x5D # u) = 0x5D # u" for u
    by (simp_all add: skip_ws_def is_json_ws_def)
  have px: "p (f x @ u) = Some (x, u)" for u
    using Cons.prems(1) by simp
  show ?case
  proof (cases xs)
    case Nil
    then show ?thesis by (simp add: n px ws)
  next
    case (Cons y ys)
    have "parse_elements p m (join_comma (map f xs) @ 0x5D # r) = Some (xs, r)"
      using Cons.IH [of m] Cons.prems Cons n by simp
    then show ?thesis
      using Cons by (simp add: n px ws)
  qed
qed


lemma length_join_comma: "\<forall>y\<in>set ys. y \<noteq> [] \<Longrightarrow> length ys \<le> length (join_comma ys)"
proof (induction ys rule: join_comma.induct)
  case 1
  show ?case by simp
next
  case (2 x)
  then show ?case by (cases x) simp_all
next
  case (3 x y ys)
  then show ?case by simp
qed

lemma join_comma_Cons: "\<exists>t. join_comma (a # ys) = a @ t"
  by (cases ys) simp_all

lemma JSON_stringify_todo_Cons: "\<exists>t. JSON_stringify (todo_to_js x) = 0x7B # 0x22 # t"
  by (simp add: todo_to_js_def QuoteJSONString_def)

lemma length_JSON_stringify_todo: "4 \<le> length (JSON_stringify (todo_to_js x))"
  by (simp add: todo_to_js_def QuoteJSONString_def)

lemma JSON_stringify_todo_nonempty: "JSON_stringify (todo_to_js x) \<noteq> []"
  using length_JSON_stringify_todo [of x] by auto

lemma JSON_parse_stringify_todos:
  "JSON_parse (JSON_stringify (todos_to_js l)) = Inr (todos_to_js l)"
proof (cases l)
  case Nil
  then show ?thesis
    by (simp add: JSON_parse_def todos_to_js_def skip_ws_def is_json_ws_def)
next
  case (Cons x l')
  define vs where "vs = map todo_to_js l"
  define body where "body = join_comma (map JSON_stringify vs) @ [0x5D]"
  define N where "N = length (0x5B # body)"
  have s: "JSON_stringify (todos_to_js l) = 0x5B # body"
    by (simp add: todos_to_js_def body_def vs_def)
  have ne: "\<forall>y\<in>set (map JSON_stringify vs). y \<noteq> []"
    by (auto simp: vs_def JSON_stringify_todo_nonempty)
  have "length vs \<le> length (join_comma (map JSON_stringify vs))"
    using length_join_comma [OF ne] by simp
  then have N_len: "length vs \<le> N"
    by (simp add: N_def body_def)
  obtain t where t: "join_comma (map JSON_stringify vs) = JSON_stringify (todo_to_js x) @ t"
    using join_comma_Cons [of "JSON_stringify (todo_to_js x)" "map JSON_stringify (map todo_to_js l')"]
    by (auto simp: vs_def Cons)
  obtain t' where t': "JSON_stringify (todo_to_js x) = 0x7B # 0x22 # t'"
    using JSON_stringify_todo_Cons by blast
  have "4 \<le> N"
    using length_JSON_stringify_todo [of x] by (simp add: N_def body_def t)
  then obtain k where "N = 4 + k"
    by (auto simp: le_iff_add)
  then have k: "N = Suc (Suc (Suc (Suc k)))"
    by simp
  have elem: "parse_value N (JSON_stringify v @ u) = Some (v, u)" if "v \<in> set vs" for v u
    using that parse_value_todo [of k] by (auto simp: vs_def k)
  have "vs \<noteq> []"
    by (simp add: vs_def Cons)
  then have "parse_elements (parse_value N) N (join_comma (map JSON_stringify vs) @ 0x5D # []) = Some (vs, [])"
    using parse_elements_join [of vs "parse_value N" JSON_stringify N "[]"] elem N_len by blast
  then have pe: "parse_elements (parse_value N) N body = Some (vs, [])"
    by (simp add: body_def)
  have "skip_ws body = 0x7B # 0x22 # t' @ t @ [0x5D]"
    by (simp add: body_def t t' skip_ws_def is_json_ws_def)
  then have "parse_value (Suc N) (0x5B # body) = Some (JArr vs, [])"
    using parse_value_array [OF _ _ pe] by simp
  then have "JSON_parse (0x5B # body) = Inr (JArr vs)"
    by (simp add: JSON_parse_def N_def skip_ws_def del: parse_value.simps)
  then show ?thesis
    unfolding s by (simp add: todos_to_js_def vs_def)
qed

lemma JSON_stringify_todos_nonempty: "JSON_stringify (todos_to_js l) \<noteq> []"
  by (simp add: todos_to_js_def)

section \<open>Persistence\<close>

text \<open>
  C7: when the write goes through (access to the storage is not refused and the browser
  admits the value), a load of the same key from the storage that \<^verbatim>\<open>save\<close> leaves returns
  the task list that was saved, for every task list, key and default.
\<close>

theorem save_load_roundtrip:
  "\<not> denied st \<Longrightarrow> accepts st k (JSON_stringify (todos_to_js l)) \<Longrightarrow>
   load (save st k (todos_to_js l)) k d = Inr (todos_to_js l)"
  using JSON_stringify_todos_nonempty [of l]
  by (simp add: save_def setItem_def load_def load_try_def getItem_def JSON_parse_stringify_todos
        del: JSON_stringify.simps)

theorem save_load_roundtrip_witness:
  "\<not> denied \<lparr>items = Map.empty, denied = False, accepts = (\<lambda>k v. True)\<rparr>
   \<and> accepts \<lparr>items = Map.empty, denied = False, accepts = (\<lambda>k v. True)\<rparr> (js_str ''todos-v1'')
       (JSON_stringify (todos_to_js
          [\<lparr>id' = js_str ''a'', text' = [0x22, 0x5C, 0x0A, 0xD800], completed = True\<rparr>]))
   \<and> load (save \<lparr>items = Map.empty, denied = False, accepts = (\<lambda>k v. True)\<rparr> (js_str ''todos-v1'')
         (todos_to_js [\<lparr>id' = js_str ''a'', text' = [0x22, 0x5C, 0x0A, 0xD800], completed = True\<rparr>]))
       (js_str ''todos-v1'') (JArr [])
     = Inr (todos_to_js [\<lparr>id' = js_str ''a'', text' = [0x22, 0x5C, 0x0A, 0xD800], completed = True\<rparr>])"
  using save_load_roundtrip [of "\<lparr>items = Map.empty, denied = False, accepts = (\<lambda>k v. True)\<rparr>"
      "js_str ''todos-v1''"
      "[\<lparr>id' = js_str ''a'', text' = [0x22, 0x5C, 0x0A, 0xD800], completed = True\<rparr>]" "JArr []"]
  by simp

text \<open>
  C8, as the code has it: \<^verbatim>\<open>load\<close> always returns a value and never an error. It returns
  the default when reading the entry throws, when there is no entry, when the entry is the
  empty string and when \<^verbatim>\<open>JSON.parse\<close> throws. In every other case it returns what
  \<^verbatim>\<open>JSON.parse\<close> returned, as it is: the hook does not look at the shape of the value.
\<close>

theorem load_spec:
  "(\<exists>v. load st k d = Inr v)
   \<and> (getItem st k = Inl e \<longrightarrow> load st k d = Inr d)
   \<and> (getItem st k = Inr None \<longrightarrow> load st k d = Inr d)
   \<and> (getItem st k = Inr (Some []) \<longrightarrow> load st k d = Inr d)
   \<and> (getItem st k = Inr (Some raw) \<and> raw \<noteq> [] \<and> JSON_parse raw = Inl e' \<longrightarrow> load st k d = Inr d)
   \<and> (getItem st k = Inr (Some raw) \<and> raw \<noteq> [] \<and> JSON_parse raw = Inr v' \<longrightarrow> load st k d = Inr v')"
  by (auto simp: load_def load_try_def split: sum.splits option.splits)

theorem load_spec_witness:
  "getItem \<lparr>items = Map.empty, denied = True, accepts = (\<lambda>k v. True)\<rparr> (js_str ''todos-v1'')
     = Inl SecurityError
   \<and> load \<lparr>items = Map.empty, denied = True, accepts = (\<lambda>k v. True)\<rparr> (js_str ''todos-v1'') (JArr [])
     = Inr (JArr [])
   \<and> getItem \<lparr>items = Map.empty, denied = False, accepts = (\<lambda>k v. True)\<rparr> (js_str ''todos-v1'')
     = Inr None
   \<and> load \<lparr>items = Map.empty, denied = False, accepts = (\<lambda>k v. True)\<rparr> (js_str ''todos-v1'') (JArr [])
     = Inr (JArr [])
   \<and> getItem \<lparr>items = [js_str ''todos-v1'' \<mapsto> []], denied = False, accepts = (\<lambda>k v. True)\<rparr>
       (js_str ''todos-v1'') = Inr (Some [])
   \<and> load \<lparr>items = [js_str ''todos-v1'' \<mapsto> []], denied = False, accepts = (\<lambda>k v. True)\<rparr>
       (js_str ''todos-v1'') (JArr []) = Inr (JArr [])
   \<and> getItem \<lparr>items = [js_str ''todos-v1'' \<mapsto> js_str ''[{''], denied = False, accepts = (\<lambda>k v. True)\<rparr>
       (js_str ''todos-v1'') = Inr (Some (js_str ''[{''))
   \<and> js_str ''[{'' \<noteq> []
   \<and> JSON_parse (js_str ''[{'') = Inl SyntaxError
   \<and> load \<lparr>items = [js_str ''todos-v1'' \<mapsto> js_str ''[{''], denied = False, accepts = (\<lambda>k v. True)\<rparr>
       (js_str ''todos-v1'') (JArr []) = Inr (JArr [])
   \<and> getItem \<lparr>items = [js_str ''todos-v1'' \<mapsto> js_str ''[ true ]''], denied = False, accepts = (\<lambda>k v. True)\<rparr>
       (js_str ''todos-v1'') = Inr (Some (js_str ''[ true ]''))
   \<and> js_str ''[ true ]'' \<noteq> []
   \<and> JSON_parse (js_str ''[ true ]'') = Inr (JArr [JBool True])
   \<and> load \<lparr>items = [js_str ''todos-v1'' \<mapsto> js_str ''[ true ]''], denied = False, accepts = (\<lambda>k v. True)\<rparr>
       (js_str ''todos-v1'') (JArr []) = Inr (JArr [JBool True])"
proof -
  have bad: "JSON_parse (js_str ''[{'') = Inl SyntaxError"
    by (simp add: JSON_parse_def skip_ws_def is_json_ws_def js_str_def)
  have good: "JSON_parse (js_str ''[ true ]'') = Inr (JArr [JBool True])"
    by (simp add: JSON_parse_def skip_ws_def is_json_ws_def parse_literal_def js_str_def)
  show ?thesis
    using bad good
      load_spec [of "\<lparr>items = Map.empty, denied = True, accepts = (\<lambda>k v. True)\<rparr>" "js_str ''todos-v1''"
        "JArr []" SecurityError]
      load_spec [of "\<lparr>items = Map.empty, denied = False, accepts = (\<lambda>k v. True)\<rparr>" "js_str ''todos-v1''"
        "JArr []"]
      load_spec [of "\<lparr>items = [js_str ''todos-v1'' \<mapsto> []], denied = False, accepts = (\<lambda>k v. True)\<rparr>"
        "js_str ''todos-v1''" "JArr []"]
      load_spec [of "\<lparr>items = [js_str ''todos-v1'' \<mapsto> js_str ''[{''], denied = False, accepts = (\<lambda>k v. True)\<rparr>"
        "js_str ''todos-v1''" "JArr []" _ "js_str ''[{''" SyntaxError]
      load_spec [of "\<lparr>items = [js_str ''todos-v1'' \<mapsto> js_str ''[ true ]''], denied = False, accepts = (\<lambda>k v. True)\<rparr>"
        "js_str ''todos-v1''" "JArr []" _ "js_str ''[ true ]''" _ "JArr [JBool True]"]
    by (simp add: getItem_def js_str_def)
qed

text \<open>
  A stored text that is valid JSON of another shape is returned, not replaced by the
  default: here the entry is an object, and \<^verbatim>\<open>load\<close> returns that object.
\<close>

theorem load_returns_other_shape:
  "load \<lparr>items = [js_str ''todos-v1'' \<mapsto> js_str ''{\"a\":true}''], denied = False,
          accepts = (\<lambda>k v. True)\<rparr> (js_str ''todos-v1'') (JArr [])
     = Inr (JObj [(js_str ''a'', JBool True)])
   \<and> \<not> is_task_array (JObj [(js_str ''a'', JBool True)])
   \<and> JObj [(js_str ''a'', JBool True)] \<noteq> JArr []"
  by (simp add: load_def load_try_def getItem_def JSON_parse_def skip_ws_def is_json_ws_def
        parse_literal_def mk_object_def CreateDataProperty_def is_array_index_def is_digit_def
        js_str_def)

end
